theory Spec2Isabelle
  imports Complex_Main "HOL-Library.List_Lexorder" "HOL-Library.Char_ord"
begin

section \<open>JavaScript values the orchestration code inspects\<close>

text \<open>
  The manager tests the fields of a handler's result with \<^verbatim>\<open>!== undefined\<close>,
  \<^verbatim>\<open>!== null\<close> and by truthiness, so the three kinds of value are kept apart.
\<close>

datatype jsval = JNull | JUndefined | JBool bool

fun truthy :: "jsval \<Rightarrow> bool" where
  "truthy (JBool b) = b"
| "truthy JNull = False"
| "truthy JUndefined = False"

text \<open>
  A JavaScript number as an option value: not-a-number, an infinity, or a finite value
  (every finite double is a rational).
\<close>

datatype jsnumber = NaN | PosInfinity | NegInfinity | Num rat

text \<open>An awaited call either throws an \<^verbatim>\<open>Error\<close> with a message or returns.\<close>

datatype 'a outcome = Threw string | Returned 'a

text \<open>\<^verbatim>\<open>s.includes(t)\<close>: \<open>t\<close> occurs in \<open>s\<close> as a contiguous run.\<close>

fun startsWith :: "string \<Rightarrow> string \<Rightarrow> bool" where
  "startsWith s [] = True"
| "startsWith [] (c # t) = False"
| "startsWith (d # s) (c # t) = (d = c \<and> startsWith s t)"

fun includes_str :: "string \<Rightarrow> string \<Rightarrow> bool" where
  "includes_str [] t = startsWith [] t"
| "includes_str (d # s) t = (startsWith (d # s) t \<or> includes_str s t)"

section \<open>The summary object and the options (manager.js, config.js)\<close>

record run_summary =
  processed :: nat
  skipped :: nat
  success :: nat
  failed :: nat
  submitErrors :: nat
  exifErrors :: nat

definition zero_summary :: run_summary where
  "zero_summary =
     \<lparr>processed = 0, skipped = 0, success = 0, failed = 0, submitErrors = 0, exifErrors = 0\<rparr>"

record options =
  exifSuccessKey :: string
  exifFailedKey :: string
  skipIfCreated :: jsval
  concurrency :: jsnumber

section \<open>The counter store (exif\_writer.js)\<close>

text \<open>
  The store keeps, per file, the application's JSON object inside one EXIF tag. The
  external tool is a world: \<open>tags\<close> is what a successful read of a file parses to
  (\<open>None\<close> when the tag is absent, is no JSON, or has no entry of the application),
  \<open>read_ok\<close> and \<open>write_ok\<close> say whether the \<open>n\<close>-th call of the tool succeeds, and
  \<open>clock\<close> counts the calls made so far.
\<close>

type_synonym app_data = "string \<rightharpoonup> int"

record exiftool =
  tags :: "string \<rightharpoonup> app_data"
  read_ok :: "nat \<Rightarrow> bool"
  write_ok :: "nat \<Rightarrow> bool"
  clock :: nat

text \<open>\<^verbatim>\<open>_readAppDataInternal\<close>: every failure is caught and becomes \<^verbatim>\<open>null\<close>.\<close>

definition readAppDataInternal :: "exiftool \<Rightarrow> string \<Rightarrow> app_data option \<times> exiftool" where
  "readAppDataInternal t filePath =
     ((if read_ok t (clock t) then tags t filePath else None), t\<lparr>clock := clock t + 1\<rparr>)"

definition getAppData :: "exiftool \<Rightarrow> string \<Rightarrow> app_data option \<times> exiftool" where
  "getAppData t filePath = readAppDataInternal t filePath"

text \<open>
  \<^verbatim>\<open>incrementCounter\<close>: rejects a key that is neither counter key, reads the current
  data, merges it over the zero defaults, adds one to the key and writes the object back;
  a failed write is caught and reported as \<^verbatim>\<open>false\<close>. It never throws.
\<close>

definition incrementCounter ::
  "options \<Rightarrow> exiftool \<Rightarrow> string \<Rightarrow> string \<Rightarrow> bool \<times> exiftool" where
  "incrementCounter opts t filePath keyToIncrement =
     (if keyToIncrement \<noteq> exifSuccessKey opts \<and> keyToIncrement \<noteq> exifFailedKey opts
      then (False, t)
      else
        (case readAppDataInternal t filePath of
           (currentAppData, t1) \<Rightarrow>
             let defaultData = [exifSuccessKey opts \<mapsto> 0, exifFailedKey opts \<mapsto> 0];
                 merged = defaultData ++ (case currentAppData of None \<Rightarrow> Map.empty | Some d \<Rightarrow> d);
                 incremented = (case merged keyToIncrement of
                                  None \<Rightarrow> merged
                                | Some n \<Rightarrow> merged(keyToIncrement \<mapsto> n + 1))
             in if write_ok t1 (clock t1)
                then (True, t1\<lparr>tags := (tags t1)(filePath \<mapsto> incremented), clock := clock t1 + 1\<rparr>)
                else (False, t1\<lparr>clock := clock t1 + 1\<rparr>)))"

section \<open>The submission pipeline (Manager.processImageBatch)\<close>

text \<open>
  What a handler's \<^verbatim>\<open>processImage\<close> resolves to: \<open>None\<close> is a null or undefined
  result, \<open>Some r\<close> an object whose absent fields read as \<open>JUndefined\<close>. The field
  \<open>successField\<close> is the property \<^verbatim>\<open>success\<close> of the immediate handler's result (the
  summary already has a field of that name).
\<close>

record attempt_result =
  submitted :: jsval
  successStatusOfPrevious :: jsval
  successField :: jsval

type_synonym 'p handler = "'p \<Rightarrow> string \<Rightarrow> attempt_result option outcome \<times> 'p"

text \<open>
  The calls the pipeline makes to its collaborators, in order, each tagged with the
  iteration (\<^verbatim>\<open>fileIndex\<close>, counted from 1) or the post-loop branch that makes it.
\<close>

datatype phase = InLoop nat | FinalKnown | FinalUndetermined

datatype call =
    IncrementCounter phase string string
  | GetAppData nat string
  | ProcessImage nat string

record 'p batch_state =
  summary :: run_summary
  previousImagePath :: "string option"
  successStatusForPreviousImage :: jsval
  fileIndex :: nat
  page :: 'p
  exif :: exiftool
  calls :: "call list"

definition initial_state :: "'p \<Rightarrow> exiftool \<Rightarrow> 'p batch_state" where
  "initial_state pg ex =
     \<lparr>summary = zero_summary, previousImagePath = None, successStatusForPreviousImage = JNull,
      fileIndex = 0, page = pg, exif = ex, calls = []\<rparr>"

text \<open>\<^verbatim>\<open>previousImagePath && ...\<close>: null and the empty string are falsy.\<close>

definition path_truthy :: "string option \<Rightarrow> bool" where
  "path_truthy p = (case p of None \<Rightarrow> False | Some s \<Rightarrow> s \<noteq> [])"

definition tally :: "bool \<Rightarrow> jsval \<Rightarrow> run_summary \<Rightarrow> run_summary" where
  "tally exifUpdated st sm =
     (if exifUpdated
      then (if truthy st then sm\<lparr>success := success sm + 1\<rparr> else sm\<lparr>failed := failed sm + 1\<rparr>)
      else sm\<lparr>exifErrors := exifErrors sm + 1\<rparr>)"

text \<open>The body of the two "status is known" blocks (lines 548-555 and 605-611).\<close>

definition update_previous :: "options \<Rightarrow> phase \<Rightarrow> 'p batch_state \<Rightarrow> 'p batch_state" where
  "update_previous opts ph s =
     (case previousImagePath s of
        None \<Rightarrow> s
      | Some prev \<Rightarrow>
          let st = successStatusForPreviousImage s;
              keyToIncrement = (if truthy st then exifSuccessKey opts else exifFailedKey opts)
          in (case incrementCounter opts (exif s) prev keyToIncrement of
                (exifUpdated, ex) \<Rightarrow>
                  s\<lparr>summary := tally exifUpdated st (summary s), exif := ex,
                    calls := calls s @ [IncrementCounter ph prev keyToIncrement]\<rparr>))"

text \<open>Start of an iteration: count the file, settle the previous image, reset the status.\<close>

definition settle_previous :: "options \<Rightarrow> 'p batch_state \<Rightarrow> 'p batch_state" where
  "settle_previous opts s =
     (let s1 = s\<lparr>fileIndex := fileIndex s + 1\<rparr>;
          s2 = (if path_truthy (previousImagePath s1) \<and> successStatusForPreviousImage s1 \<noteq> JNull
                then update_previous opts (InLoop (fileIndex s1)) s1 else s1)
      in s2\<lparr>successStatusForPreviousImage := JNull\<rparr>)"

definition existingSuccessCount :: "options \<Rightarrow> app_data option \<Rightarrow> int" where
  "existingSuccessCount opts existingData =
     (case existingData of
        None \<Rightarrow> 0
      | Some d \<Rightarrow> (case d (exifSuccessKey opts) of None \<Rightarrow> 0 | Some n \<Rightarrow> n))"

text \<open>
  What the manager makes of the handler's answer (lines 579-591): the status it will
  attach to the stored path, and whether a submit error is counted.
\<close>

fun read_attempt :: "attempt_result option outcome \<Rightarrow> jsval \<times> bool" where
  "read_attempt (Threw msg) = (JBool False, True)"
| "read_attempt (Returned None) = (JBool False, True)"
| "read_attempt (Returned (Some r)) =
     (if submitted r \<noteq> JUndefined
      then (successStatusOfPrevious r, \<not> truthy (submitted r))
      else (JBool False, True))"

text \<open>
  The rest of an iteration: the skip check, then the handler call. \<^verbatim>\<open>getAppData\<close>
  never throws (its reader catches everything), so the \<^verbatim>\<open>catch (readError)\<close> around it
  has no branch here. The pacing sleep between files changes nothing that is modelled.
\<close>

definition handle_current ::
  "options \<Rightarrow> 'p handler \<Rightarrow> 'p batch_state \<Rightarrow> string \<Rightarrow> 'p batch_state" where
  "handle_current opts handler s currentImagePath =
     (case getAppData (exif s) currentImagePath of
        (existingData, ex) \<Rightarrow>
          let s1 = s\<lparr>exif := ex, calls := calls s @ [GetAppData (fileIndex s) currentImagePath]\<rparr>
          in if existingSuccessCount opts existingData > 0 \<and> skipIfCreated opts \<noteq> JBool False
             then s1\<lparr>summary := (summary s1)\<lparr>skipped := skipped (summary s1) + 1\<rparr>,
                     previousImagePath := None\<rparr>
             else
               (let s2 = s1\<lparr>summary := (summary s1)\<lparr>processed := processed (summary s1) + 1\<rparr>\<rparr>
                in (case handler (page s2) currentImagePath of
                      (attemptResult, pg) \<Rightarrow>
                        (case read_attempt attemptResult of
                           (st, submitError) \<Rightarrow>
                             s2\<lparr>summary := (if submitError
                                              then (summary s2)\<lparr>submitErrors := submitErrors (summary s2) + 1\<rparr>
                                              else summary s2),
                                successStatusForPreviousImage := st,
                                previousImagePath := Some currentImagePath,
                                page := pg,
                                calls := calls s2 @ [ProcessImage (fileIndex s2) currentImagePath]\<rparr>))))"

definition loop_body ::
  "options \<Rightarrow> 'p handler \<Rightarrow> 'p batch_state \<Rightarrow> string \<Rightarrow> 'p batch_state" where
  "loop_body opts handler s currentImagePath =
     handle_current opts handler (settle_previous opts s) currentImagePath"

text \<open>After the loop (lines 604-618): the known-status branch, else the undetermined one.\<close>

definition finish :: "options \<Rightarrow> 'p batch_state \<Rightarrow> 'p batch_state" where
  "finish opts s =
     (if path_truthy (previousImagePath s) \<and> successStatusForPreviousImage s \<noteq> JNull
      then update_previous opts FinalKnown s
      else if path_truthy (previousImagePath s) \<and> successStatusForPreviousImage s = JNull
              \<and> processed (summary s) > 0
      then (case previousImagePath s of
              None \<Rightarrow> s
            | Some prev \<Rightarrow>
                (case incrementCounter opts (exif s) prev (exifFailedKey opts) of
                   (exifUpdated, ex) \<Rightarrow>
                     s\<lparr>summary := (if exifUpdated
                                      then (summary s)\<lparr>failed := failed (summary s) + 1\<rparr>
                                      else (summary s)\<lparr>exifErrors := exifErrors (summary s) + 1\<rparr>),
                       exif := ex,
                       calls := calls s @ [IncrementCounter FinalUndetermined prev (exifFailedKey opts)]\<rparr>))
      else s)"

definition run_loop ::
  "options \<Rightarrow> 'p handler \<Rightarrow> 'p \<Rightarrow> exiftool \<Rightarrow> string list \<Rightarrow> 'p batch_state" where
  "run_loop opts handler pg ex imagePaths =
     foldl (loop_body opts handler) (initial_state pg ex) imagePaths"

definition run_batch ::
  "options \<Rightarrow> 'p handler \<Rightarrow> 'p \<Rightarrow> exiftool \<Rightarrow> string list \<Rightarrow> 'p batch_state" where
  "run_batch opts handler pg ex imagePaths = finish opts (run_loop opts handler pg ex imagePaths)"

definition processImageBatch ::
  "options \<Rightarrow> 'p handler \<Rightarrow> 'p \<Rightarrow> exiftool \<Rightarrow> string list \<Rightarrow> run_summary" where
  "processImageBatch opts handler pg ex imagePaths =
     summary (run_batch opts handler pg ex imagePaths)"


section \<open>The browser surface as the handlers see it\<close>

text \<open>
  The Puppeteer page is a world \<open>'p\<close>; every operation the handlers and services await
  takes the world and returns the new one with its result. An operation that can fail
  returns the error it throws (\<open>Some e\<close>) or \<open>None\<close>. Screenshots and log lines change
  nothing the orchestration reads and are left out.
\<close>

record js_error =
  err_name :: string
  err_message :: string

text \<open>
  What the look at the latest response block finds: the lookup threw, there is no
  response block, the last block is detached, or it holds so many generated images.
\<close>

datatype probe = ProbeThrew | NoBlocks | Detached | ImageCount nat

record 'p surface =
  submitButtonSelector :: string
  stallGuard :: "'p \<Rightarrow> 'p"
  readyCheck :: "'p \<Rightarrow> bool \<times> 'p"
  upload :: "'p \<Rightarrow> string \<Rightarrow> js_error option \<times> 'p"
  typePrompt :: "'p \<Rightarrow> js_error option \<times> 'p"
  waitForEnabledSubmit :: "'p \<Rightarrow> js_error option \<times> 'p"
  probeLatestResponse :: "'p \<Rightarrow> probe \<times> 'p"
  clickSubmit :: "'p \<Rightarrow> js_error option \<times> 'p"
  reload :: "'p \<Rightarrow> js_error option \<times> 'p"
  submit :: "'p \<Rightarrow> js_error option \<times> 'p"
  waitForResponse :: "'p \<Rightarrow> bool outcome \<times> 'p"

text \<open>
  \<open>stallGuard\<close> stands for \<^verbatim>\<open>handlePotentialCaptcha\<close> followed by \<^verbatim>\<open>delayIfCaptcha\<close>:
  both catch every error and their results are not used. \<open>readyCheck\<close> is the
  \<^verbatim>\<open>Promise.all\<close> over the ready selectors (true at once when none is configured).
\<close>

section \<open>The deferred service and handler (chatgpt\_service.js, chatgpt\_handler.js)\<close>

definition uploadImage :: "'p surface \<Rightarrow> 'p \<Rightarrow> string \<Rightarrow> unit outcome \<times> 'p" where
  "uploadImage d p imagePath =
     (case upload d p imagePath of
        (None, p1) \<Rightarrow> (Returned (), p1)
      | (Some e, p1) \<Rightarrow> (Threw (''ChatGPT Image upload failed: '' @ err_message e), p1))"

definition enterPrompt :: "'p surface \<Rightarrow> 'p \<Rightarrow> unit outcome \<times> 'p" where
  "enterPrompt d p =
     (case typePrompt d p of
        (None, p1) \<Rightarrow> (Returned (), p1)
      | (Some e, p1) \<Rightarrow> (Threw (''Entering prompt failed: '' @ err_message e), p1))"

text \<open>The \<^verbatim>\<open>catch\<close> of \<^verbatim>\<open>checkPreviousSuccessAndSubmit\<close> (lines 239-252).\<close>

definition submit_failure :: "'p surface \<Rightarrow> js_error \<Rightarrow> string" where
  "submit_failure d e =
     (if err_name e = ''TimeoutError'' \<and> includes_str (err_message e) (submitButtonSelector d)
      then ''Submit button did not become enabled within the 360s timeout.''
      else ''checkPreviousSuccessAndSubmit failed: '' @ err_message e)"

definition currentImageCount :: "probe \<Rightarrow> nat" where
  "currentImageCount pr = (case pr of ImageCount n \<Rightarrow> n | _ \<Rightarrow> 0)"

definition checkPreviousSuccessAndSubmit :: "'p surface \<Rightarrow> 'p \<Rightarrow> bool outcome \<times> 'p" where
  "checkPreviousSuccessAndSubmit d p =
     (case waitForEnabledSubmit d p of
        (Some e, p1) \<Rightarrow> (Threw (submit_failure d e), p1)
      | (None, p1) \<Rightarrow>
          (case probeLatestResponse d p1 of
             (pr, p2) \<Rightarrow>
               let successOfPrevious = (currentImageCount pr > 0)
               in (case clickSubmit d p2 of
                     (Some e, p3) \<Rightarrow> (Threw (submit_failure d e), p3)
                   | (None, p3) \<Rightarrow> (Returned successOfPrevious, p3))))"

text \<open>
  One pass through the \<^verbatim>\<open>try\<close> block of \<^verbatim>\<open>ChatGptHandler.processImage\<close>, with the
  service calls it made: the page was not ready, the unit was submitted (with the status
  read for the previous prompt), or an error with its message reached the \<^verbatim>\<open>catch\<close>.
\<close>

datatype svc_call = CallReady | CallUpload | CallPrompt | CallCheckAndSubmit | CallReload

datatype attempt_outcome = NotReady | Submitted bool | Failed string

definition chatgpt_attempt ::
  "'p surface \<Rightarrow> 'p \<Rightarrow> string \<Rightarrow> attempt_outcome \<times> 'p \<times> svc_call list" where
  "chatgpt_attempt d p imagePath =
     (case readyCheck d (stallGuard d p) of
        (ready, p1) \<Rightarrow>
          if \<not> ready then (NotReady, p1, [CallReady])
          else
            (case uploadImage d p1 imagePath of
               (Threw m, p2) \<Rightarrow> (Failed m, p2, [CallReady, CallUpload])
             | (Returned u, p2) \<Rightarrow>
                 (case enterPrompt d p2 of
                    (Threw m, p3) \<Rightarrow> (Failed m, p3, [CallReady, CallUpload, CallPrompt])
                  | (Returned u, p3) \<Rightarrow>
                      (case checkPreviousSuccessAndSubmit d p3 of
                         (Threw m, p4) \<Rightarrow>
                           (Failed m, p4, [CallReady, CallUpload, CallPrompt, CallCheckAndSubmit])
                       | (Returned b, p4) \<Rightarrow>
                           (Submitted b, p4, [CallReady, CallUpload, CallPrompt, CallCheckAndSubmit])))))"

definition maxRetries :: nat where
  "maxRetries = 1"

definition handler_result :: "bool \<Rightarrow> bool \<Rightarrow> attempt_result" where
  "handler_result sub prev =
     \<lparr>submitted = JBool sub, successStatusOfPrevious = JBool prev, successField = JUndefined\<rparr>"

text \<open>
  The \<^verbatim>\<open>while (retryAttempt <= maxRetries)\<close> loop. The loop variables are the retry
  counter and the two result flags; \<open>made\<close> collects the service calls made so far.
\<close>

function chatgpt_loop ::
  "'p surface \<Rightarrow> string \<Rightarrow> nat \<Rightarrow> bool \<Rightarrow> bool \<Rightarrow> 'p \<Rightarrow> svc_call list
     \<Rightarrow> attempt_result \<times> 'p \<times> svc_call list" where
  "chatgpt_loop d imagePath retryAttempt sub prev p made =
     (if retryAttempt \<le> maxRetries
      then
        (case chatgpt_attempt d p imagePath of
           (NotReady, p1, l) \<Rightarrow> (handler_result False False, p1, made @ l)
         | (Submitted b, p1, l) \<Rightarrow> (handler_result True b, p1, made @ l)
         | (Failed m, p1, l) \<Rightarrow>
             if includes_str m ''Submit button did not become enabled'' \<and> retryAttempt < maxRetries
             then
               (case reload d p1 of
                  (None, p2) \<Rightarrow>
                    chatgpt_loop d imagePath (retryAttempt + 1) sub prev p2 (made @ l @ [CallReload])
                | (Some e, p2) \<Rightarrow> (handler_result False False, p2, made @ l @ [CallReload]))
             else (handler_result False False, p1, made @ l))
      else (handler_result sub prev, p, made))"
  by pat_completeness auto
termination
  by (relation "measure (\<lambda>(d, imagePath, retryAttempt, sub, prev, p, made). Suc maxRetries - retryAttempt)")
     auto

declare chatgpt_loop.simps [simp del]

definition chatgpt_processImage ::
  "'p surface \<Rightarrow> 'p \<Rightarrow> string \<Rightarrow> attempt_result \<times> 'p \<times> svc_call list" where
  "chatgpt_processImage d p imagePath = chatgpt_loop d imagePath 0 False False p []"

definition ChatGptHandler :: "'p surface \<Rightarrow> 'p handler" where
  "ChatGptHandler d p imagePath =
     (case chatgpt_processImage d p imagePath of (r, p1, l) \<Rightarrow> (Returned (Some r), p1))"

section \<open>The immediate handler (gemini\_handler.js)\<close>

definition gemini_result :: "bool \<Rightarrow> attempt_result" where
  "gemini_result b =
     \<lparr>submitted = JUndefined, successStatusOfPrevious = JUndefined, successField = JBool b\<rparr>"

text \<open>
  \<^verbatim>\<open>GeminiHandler.processImage\<close>: every failure is caught and becomes
  \<^verbatim>\<open>{success: false}\<close>; otherwise the result is \<^verbatim>\<open>{success: result.success}\<close> of the
  service's \<^verbatim>\<open>waitForResponse\<close>. The object has no other property.
\<close>

definition gemini_processImage :: "'p surface \<Rightarrow> 'p \<Rightarrow> string \<Rightarrow> attempt_result \<times> 'p" where
  "gemini_processImage d p imagePath =
     (case readyCheck d (stallGuard d p) of
        (ready, p1) \<Rightarrow>
          if \<not> ready then (gemini_result False, p1)
          else
            (case upload d p1 imagePath of
               (Some e, p2) \<Rightarrow> (gemini_result False, p2)
             | (None, p2) \<Rightarrow>
                 (case typePrompt d p2 of
                    (Some e, p3) \<Rightarrow> (gemini_result False, p3)
                  | (None, p3) \<Rightarrow>
                      (case submit d p3 of
                         (Some e, p4) \<Rightarrow> (gemini_result False, p4)
                       | (None, p4) \<Rightarrow>
                           (case waitForResponse d p4 of
                              (Threw m, p5) \<Rightarrow> (gemini_result False, p5)
                            | (Returned b, p5) \<Rightarrow> (gemini_result b, p5))))))"

definition GeminiHandler :: "'p surface \<Rightarrow> 'p handler" where
  "GeminiHandler d p imagePath =
     (case gemini_processImage d p imagePath of (r, p1) \<Rightarrow> (Returned (Some r), p1))"

section \<open>Directory pairing and the session scheduler (file\_manager.js, Manager.runRecursiveMode)\<close>





text \<open>
  \<^verbatim>\<open>pLimit(concurrency)\<close> is the constructor of the p-limit library, which is not part
  of this repository. By the library's contract it throws a \<^verbatim>\<open>TypeError\<close> unless its
  argument is a positive integer or \<^verbatim>\<open>Infinity\<close>; \<open>pLimit_accepts\<close> says when it
  returns.
\<close>

definition pLimit_accepts :: "jsnumber \<Rightarrow> bool" where
  "pLimit_accepts c =
     (case c of
        NaN \<Rightarrow> False
      | PosInfinity \<Rightarrow> True
      | NegInfinity \<Rightarrow> False
      | Num r \<Rightarrow> of_int \<lfloor>r\<rfloor> = r \<and> 0 < r)"

datatype log_line =
    WarnMismatch nat nat nat
  | InfoFoundPairs nat
  | WarnNoPairs
  | ErrorRunFailed

text \<open>
  Lines 350-363 of \<^verbatim>\<open>runRecursiveMode\<close>: the number of pairs and the log line about
  it; the early return when there is no pair; the limiter, whose constructor throws on a
  concurrency it does not accept (the outer \<^verbatim>\<open>catch\<close> logs the error and no task is
  created); then one task per index below \<open>numPairs\<close> for the two paths at that index.
\<close>

definition pair_tasks ::
  "options \<Rightarrow> string list \<Rightarrow> string list \<Rightarrow> (string \<times> string) list \<times> log_line list" where
  "pair_tasks opts inputSubDirs userDataSubDirs =
     (let numPairs = min (length inputSubDirs) (length userDataSubDirs);
          lines = (if length inputSubDirs \<noteq> length userDataSubDirs
                   then [WarnMismatch (length inputSubDirs) (length userDataSubDirs) numPairs]
                   else [InfoFoundPairs numPairs])
      in if numPairs = 0 then ([], lines @ [WarnNoPairs])
         else if \<not> pLimit_accepts (concurrency opts) then ([], lines @ [ErrorRunFailed])
         else (map (\<lambda>i. (inputSubDirs ! i, userDataSubDirs ! i)) [0..<numPairs], lines))"

text \<open>
  What a pair's task needs from outside: \<open>prepare\<close> is everything before the batch
  (launching the browser for the profile, opening the page, navigating, the readiness
  check, listing the images of the input directory) and either throws or yields the page
  and the image paths; \<open>store\<close> is the counter store the pair's own writer works on.
\<close>

record 'p pair_env =
  prepare :: "string \<Rightarrow> string \<Rightarrow> ('p \<times> string list) outcome"
  store :: "string \<Rightarrow> exiftool"

text \<open>
  The task of one pair (lines 366-432): \<open>pairResult\<close> starts as the zero summary and is
  replaced only by a completed batch; an error is caught, the cleanup in \<^verbatim>\<open>finally\<close>
  swallows its own errors, and \<open>pairResult\<close> is returned.
\<close>

definition run_task ::
  "options \<Rightarrow> 'p handler \<Rightarrow> 'p pair_env \<Rightarrow> string \<times> string \<Rightarrow> run_summary" where
  "run_task opts handler env pair =
     (case pair of
        (currentInputPath, currentUserDataPath) \<Rightarrow>
          (case prepare env currentInputPath currentUserDataPath of
             Threw m \<Rightarrow> zero_summary
           | Returned (pg, imagePaths) \<Rightarrow>
               if length imagePaths > 0
               then processImageBatch opts handler pg (store env currentInputPath) imagePaths
               else zero_summary))"

definition add_summary :: "run_summary \<Rightarrow> run_summary \<Rightarrow> run_summary" where
  "add_summary aggregateSummary s =
     \<lparr>processed = processed aggregateSummary + processed s,
      skipped = skipped aggregateSummary + skipped s,
      success = success aggregateSummary + success s,
      failed = failed aggregateSummary + failed s,
      submitErrors = submitErrors aggregateSummary + submitErrors s,
      exifErrors = exifErrors aggregateSummary + exifErrors s\<rparr>"

definition aggregate :: "run_summary list \<Rightarrow> run_summary" where
  "aggregate results = foldl add_summary zero_summary results"

text \<open>
  \<^verbatim>\<open>runRecursiveMode\<close>, returning the aggregate it logs: \<open>results\<close> is the value of
  \<^verbatim>\<open>await Promise.all(tasks)\<close>, the summaries of all tasks in task order. A failed
  directory listing or a refused concurrency is caught by the outer \<^verbatim>\<open>catch\<close>; no
  task exists then and the aggregate stays at zero.
\<close>

definition runRecursiveMode ::
  "options \<Rightarrow> 'p handler \<Rightarrow> 'p pair_env \<Rightarrow> string list outcome \<Rightarrow> string list outcome
     \<Rightarrow> run_summary" where
  "runRecursiveMode opts handler env inputListing userDataListing =
     (case inputListing of
        Threw m \<Rightarrow> zero_summary
      | Returned inputSubDirs \<Rightarrow>
          (case userDataListing of
             Threw m \<Rightarrow> zero_summary
           | Returned userDataSubDirs \<Rightarrow>
               (let tasks = fst (pair_tasks opts inputSubDirs userDataSubDirs);
                    results = map (run_task opts handler env) tasks
                in aggregate results)))"

section \<open>A scripted surface for running the handlers on concrete inputs\<close>

text \<open>
  A page whose world is the list of things still to happen. A gate timeout is consumed by
  the wait for the enabled submit button, a response block by the look at the latest
  response, a rendered answer by the immediate handler's wait, a failing upload by the
  upload and a failing reload by the reload; every other operation succeeds and changes
  nothing.
\<close>

datatype step = GateTimeout | Block probe | Answer bool | UploadFails | ReloadFails

definition scripted :: "step list surface" where
  "scripted =
     \<lparr>submitButtonSelector = ''button.send'',
      stallGuard = (\<lambda>p. p),
      readyCheck = (\<lambda>p. (True, p)),
      upload = (\<lambda>p imagePath. case p of
          UploadFails # rest \<Rightarrow>
            (Some \<lparr>err_name = ''Error'', err_message = ''File input element not found''\<rparr>, rest)
        | _ \<Rightarrow> (None, p)),
      typePrompt = (\<lambda>p. (None, p)),
      waitForEnabledSubmit = (\<lambda>p. case p of
          GateTimeout # rest \<Rightarrow>
            (Some \<lparr>err_name = ''TimeoutError'',
                   err_message = ''Waiting for selector button.send:not([disabled]) failed''\<rparr>, rest)
        | _ \<Rightarrow> (None, p)),
      probeLatestResponse = (\<lambda>p. case p of Block pr # rest \<Rightarrow> (pr, rest) | _ \<Rightarrow> (NoBlocks, p)),
      clickSubmit = (\<lambda>p. (None, p)),
      reload = (\<lambda>p. case p of
          ReloadFails # rest \<Rightarrow>
            (Some \<lparr>err_name = ''TimeoutError'',
                   err_message = ''Navigation timeout of 60000 ms exceeded''\<rparr>, rest)
        | _ \<Rightarrow> (None, p)),
      submit = (\<lambda>p. (None, p)),
      waitForResponse = (\<lambda>p. case p of Answer b # rest \<Rightarrow> (Returned b, rest) | _ \<Rightarrow> (Returned False, p))\<rparr>"

definition default_options :: options where
  "default_options =
     \<lparr>exifSuccessKey = ''successCount'', exifFailedKey = ''failedCount'',
      skipIfCreated = JBool True, concurrency = Num 4\<rparr>"

definition fresh_store :: exiftool where
  "fresh_store = \<lparr>tags = Map.empty, read_ok = (\<lambda>n. True), write_ok = (\<lambda>n. True), clock = 0\<rparr>"

text \<open>The two counters stored for a file, zero where nothing is stored.\<close>

definition stored_counts :: "options \<Rightarrow> exiftool \<Rightarrow> string \<Rightarrow> int \<times> int" where
  "stored_counts opts t filePath =
     (case tags t filePath of
        None \<Rightarrow> (0, 0)
      | Some d \<Rightarrow>
          ((case d (exifSuccessKey opts) of None \<Rightarrow> 0 | Some n \<Rightarrow> n),
           (case d (exifFailedKey opts) of None \<Rightarrow> 0 | Some n \<Rightarrow> n)))"

section \<open>Reading the call log\<close>

text \<open>The files whose counter was incremented, in the order of the increments.\<close>

fun persist_paths :: "call list \<Rightarrow> string list" where
  "persist_paths [] = []"
| "persist_paths (IncrementCounter ph p key # cs) = p # persist_paths cs"
| "persist_paths (GetAppData k p # cs) = persist_paths cs"
| "persist_paths (ProcessImage k p # cs) = persist_paths cs"

text \<open>
  What holds of the loop state after the files \<open>xs\<close> have been through the loop: the
  index counts them; a stored previous path is the last file and the handler was called
  for it; every increment so far was made in some iteration \<open>k\<close> on the file of iteration
  \<open>k - 1\<close>, for which the handler was called; every handler call of iteration \<open>k\<close> was
  for the \<open>k\<close>-th file.
\<close>

definition trace_inv :: "string list \<Rightarrow> 'p batch_state \<Rightarrow> bool" where
  "trace_inv xs s \<longleftrightarrow>
     fileIndex s = length xs
   \<and> (\<forall>p. previousImagePath s = Some p \<longrightarrow>
          xs \<noteq> [] \<and> p = last xs \<and> ProcessImage (length xs) p \<in> set (calls s))
   \<and> (\<forall>ph p key. IncrementCounter ph p key \<in> set (calls s) \<longrightarrow>
          (\<exists>k. ph = InLoop k \<and> 2 \<le> k \<and> k \<le> length xs \<and> p = xs ! (k - 2)
               \<and> ProcessImage (k - 1) p \<in> set (calls s)))
   \<and> (\<forall>k p. ProcessImage k p \<in> set (calls s) \<longrightarrow> 1 \<le> k \<and> k \<le> length xs \<and> p = xs ! (k - 1))"

text \<open>
  A store in which the file \<open>u\<close> counts as done: every read succeeds and the stored
  success count of \<open>u\<close> is above zero.
\<close>

definition done_in_store :: "options \<Rightarrow> string \<Rightarrow> exiftool \<Rightarrow> bool" where
  "done_in_store opts u t \<longleftrightarrow>
     (\<forall>k. read_ok t k) \<and> 0 < existingSuccessCount opts (tags t u)"


section \<open>Concrete batches\<close>

definition three_units :: "string list" where
  "three_units = [''/in/img1.png'', ''/in/img2.png'', ''/in/img3.png'']"

definition deferred_script :: "step list" where
  "deferred_script = [Block NoBlocks, Block (ImageCount 1), Block (ImageCount 0)]"

definition store_with_success :: "string \<Rightarrow> int \<Rightarrow> exiftool" where
  "store_with_success filePath n =
     fresh_store\<lparr>tags := [filePath \<mapsto> [''successCount'' \<mapsto> n, ''failedCount'' \<mapsto> 0]]\<rparr>"



text \<open>
  An environment for the scheduler: the browser of profile \<open>p2\<close> fails to launch, every
  other pair gets a fresh page and one image in its input directory.
\<close>

definition demo_env :: "step list pair_env" where
  "demo_env =
     \<lparr>prepare = (\<lambda>currentInputPath currentUserDataPath.
          if currentUserDataPath = ''/profiles/p2'' then Threw ''Failed to launch the browser process''
          else Returned ([Block NoBlocks], [currentInputPath @ ''/img1.png''])),
      store = (\<lambda>currentInputPath. fresh_store)\<rparr>"


section \<open>Accounting: every unit is either processed or skipped\<close>


lemma tally_keeps [simp]:
  "processed (tally b st sm) = processed sm" "skipped (tally b st sm) = skipped sm"
  by (simp_all add: tally_def)

lemma update_previous_keeps [simp]:
  "processed (summary (update_previous opts ph s)) = processed (summary s)"
  "skipped (summary (update_previous opts ph s)) = skipped (summary s)"
  "fileIndex (update_previous opts ph s) = fileIndex s"
  "page (update_previous opts ph s) = page s"
  "previousImagePath (update_previous opts ph s) = previousImagePath s"
  by (simp_all add: update_previous_def Let_def split: option.splits prod.splits)

lemma settle_previous_keeps [simp]:
  "processed (summary (settle_previous opts s)) = processed (summary s)"
  "skipped (summary (settle_previous opts s)) = skipped (summary s)"
  "fileIndex (settle_previous opts s) = Suc (fileIndex s)"
  "page (settle_previous opts s) = page s"
  "previousImagePath (settle_previous opts s) = previousImagePath s"
  "successStatusForPreviousImage (settle_previous opts s) = JNull"
  by (simp_all add: settle_previous_def Let_def)

lemma handle_current_fileIndex [simp]:
  "fileIndex (handle_current opts handler s u) = fileIndex s"
  by (simp add: handle_current_def Let_def split: prod.splits)

lemma handle_current_counts:
  "(processed (summary (handle_current opts handler s u)) = Suc (processed (summary s))
      \<and> skipped (summary (handle_current opts handler s u)) = skipped (summary s))
   \<or> (skipped (summary (handle_current opts handler s u)) = Suc (skipped (summary s))
      \<and> processed (summary (handle_current opts handler s u)) = processed (summary s))"
  by (simp add: handle_current_def Let_def split: prod.splits)

lemma loop_body_counts:
  "(processed (summary (loop_body opts handler s u)) = Suc (processed (summary s))
      \<and> skipped (summary (loop_body opts handler s u)) = skipped (summary s))
   \<or> (skipped (summary (loop_body opts handler s u)) = Suc (skipped (summary s))
      \<and> processed (summary (loop_body opts handler s u)) = processed (summary s))"
  using handle_current_counts [of opts handler "settle_previous opts s" u]
  by (simp add: loop_body_def)

lemma loop_body_fileIndex [simp]:
  "fileIndex (loop_body opts handler s u) = Suc (fileIndex s)"
  by (simp add: loop_body_def)

lemma foldl_loop_counts:
  "processed (summary (foldl (loop_body opts handler) s us))
     + skipped (summary (foldl (loop_body opts handler) s us))
   = processed (summary s) + skipped (summary s) + length us"
proof (induction us arbitrary: s)
  case Nil
  show ?case by simp
next
  case (Cons u us)
  from loop_body_counts [of opts handler s u] Cons.IH [of "loop_body opts handler s u"]
  show ?case by auto
qed

lemma foldl_loop_fileIndex:
  "fileIndex (foldl (loop_body opts handler) s us) = fileIndex s + length us"
  by (induction us arbitrary: s) simp_all

lemma finish_keeps [simp]:
  "processed (summary (finish opts s)) = processed (summary s)"
  "skipped (summary (finish opts s)) = skipped (summary s)"
  "fileIndex (finish opts s) = fileIndex s"
  by (simp_all add: finish_def split: option.splits prod.splits)

text \<open>
  Claim C3. For every list of discovered units, every handler (also one that throws on
  some or all calls) and every state of the counter store, the summary returned by
  \<open>processImageBatch\<close> has \<open>processed + skipped\<close> equal to the number of units; the
  loop reaches the last unit (\<open>fileIndex\<close> ends at the length of the list); and each
  iteration adds exactly one to exactly one of the two counters.
\<close>

theorem batch_accounts_for_every_unit:
  "processed (processImageBatch opts handler pg ex imagePaths)
     + skipped (processImageBatch opts handler pg ex imagePaths) = length imagePaths
   \<and> fileIndex (run_batch opts handler pg ex imagePaths) = length imagePaths
   \<and> (\<forall>s u. (processed (summary (loop_body opts handler s u)) = Suc (processed (summary s))
                \<and> skipped (summary (loop_body opts handler s u)) = skipped (summary s))
             \<or> (skipped (summary (loop_body opts handler s u)) = Suc (skipped (summary s))
                \<and> processed (summary (loop_body opts handler s u)) = processed (summary s)))"
  using foldl_loop_counts [of opts handler "initial_state pg ex" imagePaths]
        foldl_loop_fileIndex [of opts handler "initial_state pg ex" imagePaths]
        loop_body_counts [of opts handler]
  by (simp add: processImageBatch_def run_batch_def run_loop_def initial_state_def zero_summary_def)

section \<open>Where and when counters are incremented\<close>

lemma persist_paths_append [simp]:
  "persist_paths (cs @ ds) = persist_paths cs @ persist_paths ds"
  by (induction cs rule: persist_paths.induct) simp_all

lemma persist_paths_set:
  "q \<in> set (persist_paths cs) \<longleftrightarrow> (\<exists>ph key. IncrementCounter ph q key \<in> set cs)"
  by (induction cs rule: persist_paths.induct) auto

lemma update_previous_calls:
  "previousImagePath s = Some p \<Longrightarrow>
   \<exists>key. calls (update_previous opts ph s) = calls s @ [IncrementCounter ph p key]"
  by (simp add: update_previous_def Let_def split: prod.splits)

lemma settle_previous_calls:
  "calls (settle_previous opts s) = calls s
   \<or> (\<exists>p key. previousImagePath s = Some p
         \<and> calls (settle_previous opts s)
             = calls s @ [IncrementCounter (InLoop (Suc (fileIndex s))) p key])"
proof (cases "path_truthy (previousImagePath s) \<and> successStatusForPreviousImage s \<noteq> JNull")
  case False
  then show ?thesis by (auto simp: settle_previous_def Let_def)
next
  case True
  then obtain p where p: "previousImagePath s = Some p"
    by (auto simp: path_truthy_def split: option.splits)
  from update_previous_calls [of "s\<lparr>fileIndex := fileIndex s + 1\<rparr>" p opts "InLoop (Suc (fileIndex s))"] p
  obtain key where
    "calls (update_previous opts (InLoop (Suc (fileIndex s))) (s\<lparr>fileIndex := fileIndex s + 1\<rparr>))
       = calls s @ [IncrementCounter (InLoop (Suc (fileIndex s))) p key]"
    by auto
  with True p show ?thesis by (auto simp: settle_previous_def Let_def)
qed

lemma handle_current_calls:
  "(previousImagePath (handle_current opts handler s u) = None
      \<and> calls (handle_current opts handler s u) = calls s @ [GetAppData (fileIndex s) u])
   \<or> (previousImagePath (handle_current opts handler s u) = Some u
      \<and> calls (handle_current opts handler s u)
           = calls s @ [GetAppData (fileIndex s) u, ProcessImage (fileIndex s) u])"
  by (simp add: handle_current_def Let_def split: prod.splits)

lemma trace_inv_initial: "trace_inv [] (initial_state pg ex)"
  by (simp add: trace_inv_def initial_state_def)

lemma trace_inv_step:
  assumes inv: "trace_inv xs s"
  shows "trace_inv (xs @ [u]) (loop_body opts handler s u)"
proof -
  let ?n = "length xs"
  let ?s1 = "settle_previous opts s"
  let ?s2 = "handle_current opts handler ?s1 u"
  from inv have idx: "fileIndex s = ?n" by (simp add: trace_inv_def)
  from inv have prev: "\<And>p. previousImagePath s = Some p \<Longrightarrow>
      xs \<noteq> [] \<and> p = last xs \<and> ProcessImage ?n p \<in> set (calls s)"
    by (simp add: trace_inv_def)
  from inv have inc: "\<And>ph p key. IncrementCounter ph p key \<in> set (calls s) \<Longrightarrow>
      \<exists>k. ph = InLoop k \<and> 2 \<le> k \<and> k \<le> ?n \<and> p = xs ! (k - 2) \<and> ProcessImage (k - 1) p \<in> set (calls s)"
    unfolding trace_inv_def by blast
  from inv have pro: "\<And>k p. ProcessImage k p \<in> set (calls s) \<Longrightarrow> 1 \<le> k \<and> k \<le> ?n \<and> p = xs ! (k - 1)"
    by (simp add: trace_inv_def)
  have sub1: "set (calls s) \<subseteq> set (calls ?s1)"
    using settle_previous_calls [of opts s] by auto
  have inc1: "\<exists>k. ph = InLoop k \<and> 2 \<le> k \<and> k \<le> Suc ?n \<and> p = (xs @ [u]) ! (k - 2)
                 \<and> ProcessImage (k - 1) p \<in> set (calls ?s1)"
    if m: "IncrementCounter ph p key \<in> set (calls ?s1)" for ph p key
  proof (cases "IncrementCounter ph p key \<in> set (calls s)")
    case True
    from inc [OF True] obtain k where k: "ph = InLoop k" "2 \<le> k" "k \<le> ?n" "p = xs ! (k - 2)"
      "ProcessImage (k - 1) p \<in> set (calls s)" by blast
    from k(2,3) have "k - 2 < ?n" by arith
    then have "(xs @ [u]) ! (k - 2) = xs ! (k - 2)" by (simp add: nth_append)
    with k sub1 show ?thesis by auto
  next
    case False
    with m settle_previous_calls [of opts s] idx
    have new: "previousImagePath s = Some p" "ph = InLoop (Suc ?n)" by auto
    from prev [OF new(1)] have ne: "xs \<noteq> []" and pl: "p = last xs"
      and pp: "ProcessImage ?n p \<in> set (calls s)" by auto
    from ne have "(xs @ [u]) ! (?n - 1) = last xs"
      by (simp add: nth_append last_conv_nth)
    with ne pl pp new sub1 show ?thesis
      by (intro exI [of _ "Suc ?n"]) (auto simp: Suc_le_eq)
  qed
  have pro1: "1 \<le> k \<and> k \<le> ?n \<and> p = xs ! (k - 1)"
    if m: "ProcessImage k p \<in> set (calls ?s1)" for k p
  proof -
    from m settle_previous_calls [of opts s] have "ProcessImage k p \<in> set (calls s)" by auto
    from pro [OF this] show ?thesis .
  qed
  have idx1: "fileIndex ?s1 = Suc ?n" using idx by simp
  have sub2: "set (calls ?s1) \<subseteq> set (calls ?s2)"
    using handle_current_calls [of opts handler ?s1 u] by auto
  have a: "fileIndex ?s2 = length (xs @ [u])" using idx1 by simp
  have b: "xs @ [u] \<noteq> [] \<and> p = last (xs @ [u]) \<and> ProcessImage (length (xs @ [u])) p \<in> set (calls ?s2)"
    if "previousImagePath ?s2 = Some p" for p
    using that handle_current_calls [of opts handler ?s1 u] idx1 by auto
  have c: "\<exists>k. ph = InLoop k \<and> 2 \<le> k \<and> k \<le> length (xs @ [u]) \<and> p = (xs @ [u]) ! (k - 2)
              \<and> ProcessImage (k - 1) p \<in> set (calls ?s2)"
    if m: "IncrementCounter ph p key \<in> set (calls ?s2)" for ph p key
  proof -
    from m handle_current_calls [of opts handler ?s1 u]
    have "IncrementCounter ph p key \<in> set (calls ?s1)" by auto
    from inc1 [OF this] sub2 show ?thesis by auto
  qed
  have d: "1 \<le> k \<and> k \<le> length (xs @ [u]) \<and> p = (xs @ [u]) ! (k - 1)"
    if m: "ProcessImage k p \<in> set (calls ?s2)" for k p
  proof (cases "ProcessImage k p \<in> set (calls ?s1)")
    case True
    from pro1 [OF True] have k: "1 \<le> k" "k \<le> ?n" "p = xs ! (k - 1)" by auto
    then have "k - 1 < ?n" by arith
    then have "(xs @ [u]) ! (k - 1) = xs ! (k - 1)" by (simp add: nth_append)
    with k show ?thesis by simp
  next
    case False
    with m handle_current_calls [of opts handler ?s1 u] idx1
    have "k = Suc ?n" "p = u" by auto
    then show ?thesis by simp
  qed
  show ?thesis
    unfolding trace_inv_def loop_body_def
    using a b c d by blast
qed

lemma trace_inv_foldl:
  "trace_inv xs (foldl (loop_body opts handler) (initial_state pg ex) xs)"
proof (induction xs rule: rev_induct)
  case Nil
  show ?case by (simp add: trace_inv_initial)
next
  case (snoc u xs)
  from trace_inv_step [OF snoc.IH, of u opts handler] show ?case by simp
qed

lemma finish_calls:
  "calls (finish opts s) = calls s
   \<or> (\<exists>p key ph. previousImagePath s = Some p \<and> (ph = FinalKnown \<or> ph = FinalUndetermined)
         \<and> calls (finish opts s) = calls s @ [IncrementCounter ph p key])"
proof (cases "previousImagePath s")
  case None
  then show ?thesis by (simp add: finish_def path_truthy_def)
next
  case (Some p)
  from update_previous_calls [OF Some, of opts FinalKnown] Some
  show ?thesis
    by (auto simp: finish_def split: prod.splits)
qed

text \<open>Every counter increment of a batch, placed.\<close>

lemma run_batch_increments:
  assumes m: "IncrementCounter ph p key \<in> set (calls (run_batch opts handler pg ex xs))"
  shows "(\<exists>k. ph = InLoop k \<and> 2 \<le> k \<and> k \<le> length xs \<and> p = xs ! (k - 2)
              \<and> ProcessImage (k - 1) p \<in> set (calls (run_batch opts handler pg ex xs)))
       \<or> ((ph = FinalKnown \<or> ph = FinalUndetermined) \<and> xs \<noteq> [] \<and> p = last xs
              \<and> ProcessImage (length xs) p \<in> set (calls (run_batch opts handler pg ex xs)))"
proof -
  let ?s = "run_loop opts handler pg ex xs"
  have inv: "trace_inv xs ?s" by (simp add: run_loop_def trace_inv_foldl)
  have sub: "set (calls ?s) \<subseteq> set (calls (finish opts ?s))"
    using finish_calls [of opts ?s] by auto
  show ?thesis
  proof (cases "IncrementCounter ph p key \<in> set (calls ?s)")
    case True
    with inv obtain k where "ph = InLoop k \<and> 2 \<le> k \<and> k \<le> length xs \<and> p = xs ! (k - 2)
        \<and> ProcessImage (k - 1) p \<in> set (calls ?s)"
      unfolding trace_inv_def by blast
    with sub show ?thesis by (auto simp: run_batch_def)
  next
    case False
    with m finish_calls [of opts ?s]
    have "previousImagePath ?s = Some p" "ph = FinalKnown \<or> ph = FinalUndetermined"
      by (auto simp: run_batch_def)
    with inv sub show ?thesis
      unfolding trace_inv_def run_batch_def by blast
  qed
qed

lemma run_batch_process_calls:
  assumes m: "ProcessImage k p \<in> set (calls (run_batch opts handler pg ex xs))"
  shows "1 \<le> k \<and> k \<le> length xs \<and> p = xs ! (k - 1)"
proof -
  let ?s = "run_loop opts handler pg ex xs"
  have inv: "trace_inv xs ?s" by (simp add: run_loop_def trace_inv_foldl)
  from m finish_calls [of opts ?s] have "ProcessImage k p \<in> set (calls ?s)"
    by (auto simp: run_batch_def)
  with inv show ?thesis unfolding trace_inv_def by blast
qed

lemma loop_body_persist_paths:
  "persist_paths (calls (loop_body opts handler s u)) = persist_paths (calls s)
   \<or> (\<exists>p. previousImagePath s = Some p
         \<and> persist_paths (calls (loop_body opts handler s u)) = persist_paths (calls s) @ [p])"
  using settle_previous_calls [of opts s]
        handle_current_calls [of opts handler "settle_previous opts s" u]
  by (auto simp: loop_body_def)

lemma loop_persist_paths_butlast:
  assumes inv: "trace_inv xs s"
  shows "set (persist_paths (calls s)) \<subseteq> set (butlast xs)"
proof
  fix q assume "q \<in> set (persist_paths (calls s))"
  then obtain ph key where "IncrementCounter ph q key \<in> set (calls s)"
    by (auto simp: persist_paths_set)
  with inv obtain k where k: "2 \<le> k" "k \<le> length xs" "q = xs ! (k - 2)"
    unfolding trace_inv_def by blast
  then have "k - 2 < length (butlast xs)" by simp
  moreover from this k have "q = butlast xs ! (k - 2)" by (simp add: nth_butlast)
  ultimately show "q \<in> set (butlast xs)" by (metis nth_mem)
qed

lemma last_notin_butlast: "distinct xs \<Longrightarrow> xs \<noteq> [] \<Longrightarrow> last xs \<notin> set (butlast xs)"
proof -
  assume d: "distinct xs" and ne: "xs \<noteq> []"
  from ne have "butlast xs @ [last xs] = xs" by simp
  with d have "distinct (butlast xs @ [last xs])" by metis
  then show ?thesis by simp
qed

lemma loop_persist_paths_distinct:
  "distinct xs \<Longrightarrow>
   distinct (persist_paths (calls (foldl (loop_body opts handler) (initial_state pg ex) xs)))"
proof (induction xs rule: rev_induct)
  case Nil
  show ?case by (simp add: initial_state_def)
next
  case (snoc u xs)
  let ?s = "foldl (loop_body opts handler) (initial_state pg ex) xs"
  from snoc.prems have dx: "distinct xs" by simp
  from snoc.IH [OF dx] have d: "distinct (persist_paths (calls ?s))" .
  have inv: "trace_inv xs ?s" by (rule trace_inv_foldl)
  show ?case
  proof (cases "persist_paths (calls (loop_body opts handler ?s u)) = persist_paths (calls ?s)")
    case True
    with d show ?thesis by simp
  next
    case False
    with loop_body_persist_paths [of opts handler ?s u] obtain p where
      p: "previousImagePath ?s = Some p"
         "persist_paths (calls (loop_body opts handler ?s u)) = persist_paths (calls ?s) @ [p]"
      by blast
    from inv p(1) have "xs \<noteq> []" "p = last xs" unfolding trace_inv_def by blast+
    with last_notin_butlast [OF dx] loop_persist_paths_butlast [OF inv]
    have "p \<notin> set (persist_paths (calls ?s))" by blast
    with d p(2) show ?thesis by simp
  qed
qed

lemma run_batch_persist_paths_distinct:
  assumes dx: "distinct xs"
  shows "distinct (persist_paths (calls (run_batch opts handler pg ex xs)))"
proof -
  let ?s = "run_loop opts handler pg ex xs"
  have inv: "trace_inv xs ?s" by (simp add: run_loop_def trace_inv_foldl)
  have d: "distinct (persist_paths (calls ?s))"
    using loop_persist_paths_distinct [OF dx] by (simp add: run_loop_def)
  show ?thesis
  proof (cases "calls (finish opts ?s) = calls ?s")
    case True
    with d show ?thesis by (simp add: run_batch_def)
  next
    case False
    with finish_calls [of opts ?s] obtain p key ph where
      p: "previousImagePath ?s = Some p" "calls (finish opts ?s) = calls ?s @ [IncrementCounter ph p key]"
      by blast
    from inv p(1) have "xs \<noteq> []" "p = last xs" unfolding trace_inv_def by blast+
    with last_notin_butlast [OF dx] loop_persist_paths_butlast [OF inv]
    have "p \<notin> set (persist_paths (calls ?s))" by blast
    with d p(2) show ?thesis by (simp add: run_batch_def)
  qed
qed

lemma increment_placed:
  assumes dx: "distinct imagePaths" and i: "i < length imagePaths"
    and m: "IncrementCounter ph (imagePaths ! i) key
              \<in> set (calls (run_batch opts handler pg ex imagePaths))"
  shows "(if Suc i < length imagePaths then ph = InLoop (i + 2)
          else (ph = FinalKnown \<or> ph = FinalUndetermined))
       \<and> ProcessImage (Suc i) (imagePaths ! i)
            \<in> set (calls (run_batch opts handler pg ex imagePaths))"
proof -
  let ?n = "length imagePaths"
  from run_batch_increments [OF m]
  consider (loop) k where "ph = InLoop k" "2 \<le> k" "k \<le> ?n" "imagePaths ! i = imagePaths ! (k - 2)"
      "ProcessImage (k - 1) (imagePaths ! i) \<in> set (calls (run_batch opts handler pg ex imagePaths))"
    | (final) "ph = FinalKnown \<or> ph = FinalUndetermined" "imagePaths \<noteq> []"
      "imagePaths ! i = last imagePaths"
      "ProcessImage ?n (imagePaths ! i) \<in> set (calls (run_batch opts handler pg ex imagePaths))"
    by blast
  then show ?thesis
  proof cases
    case loop
    from loop(2,3) have "k - 2 < ?n" by arith
    with dx i loop(4) have "i = k - 2" by (simp add: nth_eq_iff_index_eq)
    with loop(2) have k: "k = i + 2" by arith
    with loop(3) have "Suc i < ?n" by arith
    moreover from k have "k - 1 = Suc i" by arith
    ultimately show ?thesis using loop(1,5) k by simp
  next
    case final
    from final(2) have "last imagePaths = imagePaths ! (?n - 1)" by (simp add: last_conv_nth)
    with dx i final(2,3) have "i = ?n - 1" by (simp add: nth_eq_iff_index_eq)
    with i have "Suc i = ?n" by arith
    with final(1,4) show ?thesis by simp
  qed
qed


text \<open>
  Claim C10. In a batch of distinct files, if the file at position \<open>i\<close> is skipped (the
  handler is not called in its iteration), then no counter increment is made in the next
  iteration (\<open>fileIndex = i + 2\<close>), no increment is ever made for the skipped file, and
  no file of the batch has its counter incremented twice.
\<close>

theorem skip_clears_previous_pointer:
  assumes dx: "distinct imagePaths" and i: "i < length imagePaths"
    and skipped_i: "ProcessImage (Suc i) (imagePaths ! i)
                      \<notin> set (calls (run_batch opts handler pg ex imagePaths))"
  shows "(\<forall>p key. IncrementCounter (InLoop (i + 2)) p key
                    \<notin> set (calls (run_batch opts handler pg ex imagePaths)))
       \<and> (\<forall>ph key. IncrementCounter ph (imagePaths ! i) key
                    \<notin> set (calls (run_batch opts handler pg ex imagePaths)))
       \<and> distinct (persist_paths (calls (run_batch opts handler pg ex imagePaths)))"
proof -
  have a: "IncrementCounter (InLoop (i + 2)) p key
             \<notin> set (calls (run_batch opts handler pg ex imagePaths))" for p key
  proof
    assume "IncrementCounter (InLoop (i + 2)) p key
              \<in> set (calls (run_batch opts handler pg ex imagePaths))"
    from run_batch_increments [OF this]
    obtain k where k: "InLoop (i + 2) = InLoop k" "p = imagePaths ! (k - 2)"
        "ProcessImage (k - 1) p \<in> set (calls (run_batch opts handler pg ex imagePaths))"
      by blast
    from k(1) have "k = i + 2" by simp
    with k(2,3) have "ProcessImage (Suc i) (imagePaths ! i)
            \<in> set (calls (run_batch opts handler pg ex imagePaths))"
      by simp
    with skipped_i show False by blast
  qed
  have b: "IncrementCounter ph (imagePaths ! i) key
             \<notin> set (calls (run_batch opts handler pg ex imagePaths))" for ph key
  proof
    assume m: "IncrementCounter ph (imagePaths ! i) key
              \<in> set (calls (run_batch opts handler pg ex imagePaths))"
    from increment_placed [OF dx i m] skipped_i show False by blast
  qed
  show ?thesis
    by (intro conjI allI) (rule a, rule b, rule run_batch_persist_paths_distinct [OF dx])
qed

theorem skip_clears_previous_pointer_witness:
  "distinct three_units \<and> (1::nat) < length three_units
   \<and> ProcessImage 2 (three_units ! 1)
        \<notin> set (calls (run_batch default_options (ChatGptHandler scripted) deferred_script
                          (store_with_success ''/in/img2.png'' 1) three_units))
   \<and> (\<forall>p key. IncrementCounter (InLoop (1 + 2)) p key
        \<notin> set (calls (run_batch default_options (ChatGptHandler scripted) deferred_script
                          (store_with_success ''/in/img2.png'' 1) three_units)))
   \<and> persist_paths (calls (run_batch default_options (ChatGptHandler scripted) deferred_script
                          (store_with_success ''/in/img2.png'' 1) three_units))
       = [''/in/img1.png'', ''/in/img3.png'']"
proof -
  have h1: "distinct three_units" by (simp add: three_units_def)
  have h2: "(1::nat) < length three_units" by (simp add: three_units_def)
  have h3': "ProcessImage 2 (three_units ! 1)
        \<notin> set (calls (run_batch default_options (ChatGptHandler scripted) deferred_script
                          (store_with_success ''/in/img2.png'' 1) three_units))"
    by code_simp
  have h3: "ProcessImage (Suc 1) (three_units ! 1)
        \<notin> set (calls (run_batch default_options (ChatGptHandler scripted) deferred_script
                          (store_with_success ''/in/img2.png'' 1) three_units))"
    unfolding Suc_1 by (rule h3')
  from skip_clears_previous_pointer [OF h1 h2 h3]
  have c: "\<forall>p key. IncrementCounter (InLoop (1 + 2)) p key
        \<notin> set (calls (run_batch default_options (ChatGptHandler scripted) deferred_script
                          (store_with_success ''/in/img2.png'' 1) three_units))"
    by (rule conjunct1)
  have e: "persist_paths (calls (run_batch default_options (ChatGptHandler scripted) deferred_script
                          (store_with_success ''/in/img2.png'' 1) three_units))
       = [''/in/img1.png'', ''/in/img3.png'']"
    by code_simp
  show ?thesis by (intro conjI) (rule h1, rule h2, rule h3', rule c, rule e)
qed


section \<open>Skipping\<close>

lemma readAppDataInternal_done:
  "done_in_store opts u t \<Longrightarrow>
   fst (readAppDataInternal t p) = tags t p \<and> done_in_store opts u (snd (readAppDataInternal t p))"
  by (simp add: done_in_store_def readAppDataInternal_def)

lemma incrementCounter_done:
  assumes "done_in_store opts u t"
  shows "done_in_store opts u (snd (incrementCounter opts t p key))"
proof -
  from assms have r: "\<forall>k. read_ok t k" and c: "0 < existingSuccessCount opts (tags t u)"
    by (simp_all add: done_in_store_def)
  show ?thesis
  proof (cases "p = u")
    case False
    with r c show ?thesis
      by (auto simp: done_in_store_def incrementCounter_def readAppDataInternal_def Let_def)
  next
    case True
    from c obtain d n where d: "tags t u = Some d" "d (exifSuccessKey opts) = Some n" "0 < n"
      by (auto simp: existingSuccessCount_def split: option.splits)
    with r True show ?thesis
      by (auto simp: done_in_store_def incrementCounter_def readAppDataInternal_def Let_def
          existingSuccessCount_def map_add_def split: option.splits)
  qed
qed

lemma update_previous_done:
  "done_in_store opts u (exif s) \<Longrightarrow> done_in_store opts u (exif (update_previous opts ph s))"
proof (cases "previousImagePath s")
  case None
  assume "done_in_store opts u (exif s)"
  with None show ?thesis by (simp add: update_previous_def)
next
  case (Some prev)
  assume d: "done_in_store opts u (exif s)"
  let ?key = "if truthy (successStatusForPreviousImage s) then exifSuccessKey opts
              else exifFailedKey opts"
  have "exif (update_previous opts ph s) = snd (incrementCounter opts (exif s) prev ?key)"
    using Some by (simp add: update_previous_def Let_def split: prod.splits)
  with incrementCounter_done [OF d, of prev ?key] show ?thesis by simp
qed

lemma settle_previous_done:
  "done_in_store opts u (exif s) \<Longrightarrow> done_in_store opts u (exif (settle_previous opts s))"
  using update_previous_done [of opts u "s\<lparr>fileIndex := fileIndex s + 1\<rparr>"]
  by (simp add: settle_previous_def Let_def)

lemma handle_current_done:
  assumes "done_in_store opts u (exif s)" and "skipIfCreated opts \<noteq> JBool False"
  shows "done_in_store opts u (exif (handle_current opts handler s c))
       \<and> (\<forall>k. ProcessImage k u \<in> set (calls (handle_current opts handler s c))
              \<longrightarrow> ProcessImage k u \<in> set (calls s))"
proof -
  from assms(1) have r: "getAppData (exif s) c = (tags (exif s) c, (exif s)\<lparr>clock := clock (exif s) + 1\<rparr>)"
    by (simp add: getAppData_def readAppDataInternal_def done_in_store_def)
  from assms(1) have d': "done_in_store opts u ((exif s)\<lparr>clock := clock (exif s) + 1\<rparr>)"
    by (simp add: done_in_store_def)
  show ?thesis
  proof (cases "c = u")
    case True
    with assms r d' show ?thesis
      by (simp add: handle_current_def Let_def done_in_store_def)
  next
    case False
    with r d' show ?thesis
      by (simp add: handle_current_def Let_def split: prod.splits)
  qed
qed

lemma loop_body_done:
  assumes "done_in_store opts u (exif s)" and "skipIfCreated opts \<noteq> JBool False"
  shows "done_in_store opts u (exif (loop_body opts handler s c))
       \<and> (\<forall>k. ProcessImage k u \<in> set (calls (loop_body opts handler s c))
              \<longrightarrow> ProcessImage k u \<in> set (calls s))"
proof -
  let ?s1 = "settle_previous opts s"
  from settle_previous_done [OF assms(1)] have d1: "done_in_store opts u (exif ?s1)" .
  have "ProcessImage k u \<in> set (calls ?s1) \<longrightarrow> ProcessImage k u \<in> set (calls s)" for k
    using settle_previous_calls [of opts s] by auto
  with handle_current_done [OF d1 assms(2), of handler c] show ?thesis
    by (simp add: loop_body_def)
qed

lemma foldl_loop_done:
  assumes "skipIfCreated opts \<noteq> JBool False"
  shows "done_in_store opts u (exif s) \<Longrightarrow>
     \<forall>k. ProcessImage k u \<in> set (calls (foldl (loop_body opts handler) s cs))
              \<longrightarrow> ProcessImage k u \<in> set (calls s)"
proof (induction cs arbitrary: s)
  case Nil
  show ?case by simp
next
  case (Cons c cs)
  from loop_body_done [OF Cons.prems assms, of handler c]
  have d: "done_in_store opts u (exif (loop_body opts handler s c))"
    and p: "\<forall>k. ProcessImage k u \<in> set (calls (loop_body opts handler s c))
              \<longrightarrow> ProcessImage k u \<in> set (calls s)"
    by simp_all
  from Cons.IH [OF d] p show ?case by simp
qed

lemma run_batch_never_processes_done:
  assumes "skipIfCreated opts \<noteq> JBool False" and "done_in_store opts u ex"
  shows "ProcessImage k u \<notin> set (calls (run_batch opts handler pg ex imagePaths))"
proof
  assume m: "ProcessImage k u \<in> set (calls (run_batch opts handler pg ex imagePaths))"
  let ?s = "run_loop opts handler pg ex imagePaths"
  from m finish_calls [of opts ?s] have "ProcessImage k u \<in> set (calls ?s)"
    by (auto simp: run_batch_def)
  with foldl_loop_done [OF assms(1), of u "initial_state pg ex" handler imagePaths] assms(2)
  have "ProcessImage k u \<in> set (calls (initial_state pg ex))"
    by (simp add: run_loop_def initial_state_def)
  then show False by (simp add: initial_state_def)
qed

lemma skip_step:
  assumes rd: "getAppData (exif (settle_previous opts s)) u = (Some d, ex1)"
    and cnt: "d (exifSuccessKey opts) = Some n" and pos: "0 < n"
    and flag: "skipIfCreated opts \<noteq> JBool False"
  shows "loop_body opts handler s u =
           (settle_previous opts s)
             \<lparr>summary := (summary (settle_previous opts s))
                           \<lparr>skipped := skipped (summary (settle_previous opts s)) + 1\<rparr>,
              previousImagePath := None,
              exif := ex1,
              calls := calls (settle_previous opts s) @ [GetAppData (Suc (fileIndex s)) u]\<rparr>"
  using rd cnt pos flag
  by (simp add: loop_body_def handle_current_def existingSuccessCount_def Let_def)

text \<open>
  Claim C5. With skipping not switched off and a stored success count above zero:
  \<^item> when the read of the current file's counters, made after the previous file was
    settled, returns that data, the iteration ends at the skip: the state is the one
    left by settling the previous file with \<open>skipped\<close> one higher, the previous-path
    pointer cleared, and the read as the only new call; the page is untouched (the
    handler is not called) and no other counter of the summary moves;
  \<^item> when the store holds that data for a file before the batch and its reads succeed,
    the handler is called for that file in no iteration of the batch.
\<close>

theorem skip_leaves_adapter_untouched:
  assumes flag: "skipIfCreated opts \<noteq> JBool False"
    and cnt: "d (exifSuccessKey opts) = Some n" and pos: "0 < n"
  shows "(getAppData (exif (settle_previous opts s)) u = (Some d, ex1) \<longrightarrow>
            loop_body opts handler s u =
              (settle_previous opts s)
                \<lparr>summary := (summary (settle_previous opts s))
                              \<lparr>skipped := skipped (summary (settle_previous opts s)) + 1\<rparr>,
                 previousImagePath := None,
                 exif := ex1,
                 calls := calls (settle_previous opts s) @ [GetAppData (Suc (fileIndex s)) u]\<rparr>)
       \<and> ((\<forall>k. read_ok ex k) \<and> tags ex u = Some d \<longrightarrow>
            (\<forall>k. ProcessImage k u \<notin> set (calls (run_batch opts handler pg ex imagePaths))))"
proof (intro conjI impI allI)
  assume "getAppData (exif (settle_previous opts s)) u = (Some d, ex1)"
  from skip_step [OF this cnt pos flag]
  show "loop_body opts handler s u =
              (settle_previous opts s)
                \<lparr>summary := (summary (settle_previous opts s))
                              \<lparr>skipped := skipped (summary (settle_previous opts s)) + 1\<rparr>,
                 previousImagePath := None,
                 exif := ex1,
                 calls := calls (settle_previous opts s) @ [GetAppData (Suc (fileIndex s)) u]\<rparr>" .
next
  fix k
  assume "(\<forall>k. read_ok ex k) \<and> tags ex u = Some d"
  with cnt pos have "done_in_store opts u ex"
    by (simp add: done_in_store_def existingSuccessCount_def)
  from run_batch_never_processes_done [OF flag this]
  show "ProcessImage k u \<notin> set (calls (run_batch opts handler pg ex imagePaths))" .
qed

theorem skip_leaves_adapter_untouched_witness:
  "skipIfCreated default_options \<noteq> JBool False
   \<and> getAppData (exif (settle_previous default_options
        (initial_state deferred_script (store_with_success ''/in/img1.png'' 2)))) ''/in/img1.png''
     = (Some [''successCount'' \<mapsto> 2, ''failedCount'' \<mapsto> 0],
        (store_with_success ''/in/img1.png'' 2)\<lparr>clock := 1\<rparr>)
   \<and> summary (loop_body default_options (ChatGptHandler scripted)
        (initial_state deferred_script (store_with_success ''/in/img1.png'' 2)) ''/in/img1.png'')
     = zero_summary\<lparr>skipped := 1\<rparr>
   \<and> calls (loop_body default_options (ChatGptHandler scripted)
        (initial_state deferred_script (store_with_success ''/in/img1.png'' 2)) ''/in/img1.png'')
     = [GetAppData 1 ''/in/img1.png'']
   \<and> page (loop_body default_options (ChatGptHandler scripted)
        (initial_state deferred_script (store_with_success ''/in/img1.png'' 2)) ''/in/img1.png'')
     = deferred_script
   \<and> (\<forall>k. read_ok (store_with_success ''/in/img1.png'' 2) k)
   \<and> tags (store_with_success ''/in/img1.png'' 2) ''/in/img1.png''
     = Some [''successCount'' \<mapsto> 2, ''failedCount'' \<mapsto> 0]
   \<and> (\<forall>k. ProcessImage k ''/in/img1.png''
          \<notin> set (calls (run_batch default_options (ChatGptHandler scripted) deferred_script
                            (store_with_success ''/in/img1.png'' 2) three_units)))
   \<and> calls (run_batch default_options (ChatGptHandler scripted) deferred_script
              (store_with_success ''/in/img1.png'' 2) three_units)
     = [GetAppData 1 ''/in/img1.png'',
        GetAppData 2 ''/in/img2.png'', ProcessImage 2 ''/in/img2.png'',
        IncrementCounter (InLoop 3) ''/in/img2.png'' ''failedCount'',
        GetAppData 3 ''/in/img3.png'', ProcessImage 3 ''/in/img3.png'',
        IncrementCounter FinalKnown ''/in/img3.png'' ''successCount'']"
proof -
  let ?st = "store_with_success ''/in/img1.png'' 2"
  let ?s = "initial_state deferred_script ?st"
  let ?d = "[''successCount'' \<mapsto> 2::int, ''failedCount'' \<mapsto> 0]"
  have h1: "getAppData (exif (settle_previous default_options ?s)) ''/in/img1.png''
     = (Some ?d, ?st\<lparr>clock := 1\<rparr>)"
    by (simp add: getAppData_def readAppDataInternal_def settle_previous_def initial_state_def
        store_with_success_def fresh_store_def path_truthy_def Let_def)
  have h2: "?d (exifSuccessKey default_options) = Some 2"
    by (simp add: default_options_def)
  have h3: "(0::int) < 2" by simp
  have h4: "skipIfCreated default_options \<noteq> JBool False"
    by (simp add: default_options_def)
  have h5: "\<forall>k. read_ok ?st k" by (simp add: store_with_success_def fresh_store_def)
  have h6: "tags ?st ''/in/img1.png'' = Some ?d" by (simp add: store_with_success_def)
  note T = skip_leaves_adapter_untouched
    [where opts = default_options and d = "?d" and n = 2, OF h4 h2 h3]
  note eq = T [THEN conjunct1, rule_format, OF h1, of "ChatGptHandler scripted"]
  have c1: "summary (loop_body default_options (ChatGptHandler scripted) ?s ''/in/img1.png'')
     = zero_summary\<lparr>skipped := 1\<rparr>"
    by (subst eq) (simp add: settle_previous_def initial_state_def path_truthy_def zero_summary_def Let_def)
  have c2: "calls (loop_body default_options (ChatGptHandler scripted) ?s ''/in/img1.png'')
     = [GetAppData 1 ''/in/img1.png'']"
    by (subst eq) (simp add: settle_previous_def initial_state_def path_truthy_def zero_summary_def Let_def)
  have c3: "page (loop_body default_options (ChatGptHandler scripted) ?s ''/in/img1.png'')
     = deferred_script"
    by (subst eq) (simp add: settle_previous_def initial_state_def path_truthy_def zero_summary_def Let_def)
  have c4: "\<forall>k. ProcessImage k ''/in/img1.png''
          \<notin> set (calls (run_batch default_options (ChatGptHandler scripted) deferred_script
                            ?st three_units))"
    by (intro allI) (rule T [THEN conjunct2, rule_format, OF conjI [OF h5 h6]])
  have c5: "calls (run_batch default_options (ChatGptHandler scripted) deferred_script
              ?st three_units)
     = [GetAppData 1 ''/in/img1.png'',
        GetAppData 2 ''/in/img2.png'', ProcessImage 2 ''/in/img2.png'',
        IncrementCounter (InLoop 3) ''/in/img2.png'' ''failedCount'',
        GetAppData 3 ''/in/img3.png'', ProcessImage 3 ''/in/img3.png'',
        IncrementCounter FinalKnown ''/in/img3.png'' ''successCount'']"
    by code_simp
  show ?thesis
    by (intro conjI) (rule h4, rule h1, rule c1, rule c2, rule c3, rule h5, rule h6, rule c4, rule c5)
qed

section \<open>The retry policy of the deferred handler\<close>





















section \<open>Pairing and aggregation\<close>

lemma pairs_by_index_are_zip:
  "map (\<lambda>i. (xs ! i, ys ! i)) [0..<min (length xs) (length ys)] = zip xs ys"
  by (rule nth_equalityI) simp_all

lemma pair_tasks_accepted:
  assumes "pLimit_accepts (concurrency opts)"
  shows "fst (pair_tasks opts xs ys) = zip xs ys"
proof (cases "min (length xs) (length ys) = 0")
  case True
  then have "xs = [] \<or> ys = []" by (auto simp: min_def split: if_splits)
  with True show ?thesis by (auto simp: pair_tasks_def Let_def)
next
  case False
  with assms show ?thesis by (simp add: pair_tasks_def Let_def pairs_by_index_are_zip)
qed

lemma pair_tasks_refused:
  assumes "\<not> pLimit_accepts (concurrency opts)"
  shows "fst (pair_tasks opts xs ys) = []"
  using assms by (simp add: pair_tasks_def Let_def)

lemma aggregate_Nil: "aggregate [] = zero_summary"
  by (simp add: aggregate_def)




lemma foldl_add_summary:
  "processed (foldl add_summary s rs) = processed s + sum_list (map processed rs)
   \<and> skipped (foldl add_summary s rs) = skipped s + sum_list (map skipped rs)
   \<and> success (foldl add_summary s rs) = success s + sum_list (map success rs)
   \<and> failed (foldl add_summary s rs) = failed s + sum_list (map failed rs)
   \<and> submitErrors (foldl add_summary s rs) = submitErrors s + sum_list (map submitErrors rs)
   \<and> exifErrors (foldl add_summary s rs) = exifErrors s + sum_list (map exifErrors rs)"
  by (induction rs arbitrary: s) (simp_all add: add_summary_def)


text \<open>
  Claim C8. Each field of the run-wide summary is the sum of that field over the
  summaries of all pair tasks; the run-wide summary of paired mode is this aggregate of
  the summaries of all tasks created (the value of \<^verbatim>\<open>Promise.all\<close>, available once
  every task has returned), the tasks being the zipped pairs when the limiter accepts
  the concurrency option and none otherwise; a failed directory listing gives the
  aggregate of no summaries; and a pair whose preparation throws contributes the zero
  summary.
\<close>

theorem aggregate_is_fieldwise_sum:
  "processed (aggregate results) = sum_list (map processed results)
   \<and> skipped (aggregate results) = sum_list (map skipped results)
   \<and> success (aggregate results) = sum_list (map success results)
   \<and> failed (aggregate results) = sum_list (map failed results)
   \<and> submitErrors (aggregate results) = sum_list (map submitErrors results)
   \<and> exifErrors (aggregate results) = sum_list (map exifErrors results)
   \<and> runRecursiveMode opts handler env (Returned inputSubDirs) (Returned userDataSubDirs)
       = aggregate (map (run_task opts handler env)
                     (fst (pair_tasks opts inputSubDirs userDataSubDirs)))
   \<and> fst (pair_tasks opts inputSubDirs userDataSubDirs)
       = (if pLimit_accepts (concurrency opts) then zip inputSubDirs userDataSubDirs else [])
   \<and> runRecursiveMode opts handler env (Threw msg) userDataListing = aggregate []
   \<and> runRecursiveMode opts handler env (Returned inputSubDirs) (Threw msg) = aggregate []
   \<and> (\<forall>inputPath profilePath m.
         prepare env inputPath profilePath = Threw m \<longrightarrow>
         run_task opts handler env (inputPath, profilePath) = zero_summary)"
  using foldl_add_summary [of zero_summary results]
    pair_tasks_accepted [of opts inputSubDirs userDataSubDirs]
    pair_tasks_refused [of opts inputSubDirs userDataSubDirs]
  by (simp add: aggregate_def zero_summary_def runRecursiveMode_def Let_def run_task_def)

theorem aggregate_is_fieldwise_sum_witness:
  "prepare demo_env ''/in/b'' ''/profiles/p2'' = Threw ''Failed to launch the browser process''
   \<and> run_task default_options (ChatGptHandler scripted) demo_env (''/in/b'', ''/profiles/p2'')
       = zero_summary
   \<and> run_task default_options (ChatGptHandler scripted) demo_env (''/in/a'', ''/profiles/p1'')
       = \<lparr>processed = 1, skipped = 0, success = 0, failed = 1, submitErrors = 0, exifErrors = 0\<rparr>
   \<and> runRecursiveMode default_options (ChatGptHandler scripted) demo_env
        (Returned [''/in/a'', ''/in/b'']) (Returned [''/profiles/p1'', ''/profiles/p2'', ''/profiles/p3''])
       = \<lparr>processed = 1, skipped = 0, success = 0, failed = 1, submitErrors = 0, exifErrors = 0\<rparr>
   \<and> runRecursiveMode (default_options\<lparr>concurrency := Num 0\<rparr>) (ChatGptHandler scripted) demo_env
        (Returned [''/in/a'', ''/in/b'']) (Returned [''/profiles/p1'', ''/profiles/p2'', ''/profiles/p3''])
       = zero_summary"
proof -
  have h: "prepare demo_env ''/in/b'' ''/profiles/p2'' = Threw ''Failed to launch the browser process''"
    by (simp add: demo_env_def)
  note T = aggregate_is_fieldwise_sum
    [where opts = default_options and handler = "ChatGptHandler scripted" and env = demo_env]
  have z: "run_task default_options (ChatGptHandler scripted) demo_env (''/in/b'', ''/profiles/p2'')
       = zero_summary"
    using T [THEN conjunct2, THEN conjunct2, THEN conjunct2, THEN conjunct2, THEN conjunct2,
             THEN conjunct2, THEN conjunct2, THEN conjunct2, THEN conjunct2, THEN conjunct2,
             rule_format, OF h] .
  have a: "run_task default_options (ChatGptHandler scripted) demo_env (''/in/a'', ''/profiles/p1'')
       = \<lparr>processed = 1, skipped = 0, success = 0, failed = 1, submitErrors = 0, exifErrors = 0\<rparr>"
    by code_simp
  have r: "runRecursiveMode default_options (ChatGptHandler scripted) demo_env
        (Returned [''/in/a'', ''/in/b'']) (Returned [''/profiles/p1'', ''/profiles/p2'', ''/profiles/p3''])
       = \<lparr>processed = 1, skipped = 0, success = 0, failed = 1, submitErrors = 0, exifErrors = 0\<rparr>"
    by code_simp
  have r0: "runRecursiveMode (default_options\<lparr>concurrency := Num 0\<rparr>) (ChatGptHandler scripted) demo_env
        (Returned [''/in/a'', ''/in/b'']) (Returned [''/profiles/p1'', ''/profiles/p2'', ''/profiles/p3''])
       = zero_summary"
    by (simp add: runRecursiveMode_def pair_tasks_def pLimit_accepts_def Let_def aggregate_Nil)
  show ?thesis by (intro conjI) (rule h, rule z, rule a, rule r, rule r0)
qed

section \<open>The verification scenarios, run\<close>

text \<open>
  Claim C1, run on the code. Three files go through the deferred handler on a fresh
  conversation: during the call for \<open>img1\<close> there is no response block, during the call
  for \<open>img2\<close> the latest block holds a generated image (the handler reports the previous
  prompt, \<open>img1\<close>, as a success), during the call for \<open>img3\<close> the latest block holds
  none (the handler reports \<open>img2\<close> as a failure). The pipeline stores each reported
  status under the path of the file whose call reported it: \<open>img1\<close> gets the failure key
  in iteration 2, \<open>img2\<close> the success key in iteration 3, and \<open>img3\<close> the failure key
  after the loop, through the known-status branch. The stored counters (success, failure)
  are \<open>(0, 1)\<close>, \<open>(1, 0)\<close>, \<open>(0, 1)\<close>.
\<close>

theorem deferred_scenario_attributes_one_unit_late:
  "fst (ChatGptHandler scripted [Block (ImageCount 1), Block (ImageCount 0)] ''/in/img2.png'')
     = Returned (Some (handler_result True True))
   \<and> fst (ChatGptHandler scripted [Block (ImageCount 0)] ''/in/img3.png'')
     = Returned (Some (handler_result True False))
   \<and> calls (run_batch default_options (ChatGptHandler scripted) deferred_script fresh_store
            three_units)
     = [GetAppData 1 ''/in/img1.png'', ProcessImage 1 ''/in/img1.png'',
        IncrementCounter (InLoop 2) ''/in/img1.png'' ''failedCount'',
        GetAppData 2 ''/in/img2.png'', ProcessImage 2 ''/in/img2.png'',
        IncrementCounter (InLoop 3) ''/in/img2.png'' ''successCount'',
        GetAppData 3 ''/in/img3.png'', ProcessImage 3 ''/in/img3.png'',
        IncrementCounter FinalKnown ''/in/img3.png'' ''failedCount'']
   \<and> map (stored_counts default_options
            (exif (run_batch default_options (ChatGptHandler scripted) deferred_script
                     fresh_store three_units))) three_units
     = [(0, 1), (1, 0), (0, 1)]
   \<and> processImageBatch default_options (ChatGptHandler scripted) deferred_script fresh_store
        three_units
     = \<lparr>processed = 3, skipped = 0, success = 1, failed = 2, submitErrors = 0, exifErrors = 0\<rparr>"
  by code_simp


text \<open>
  Claim C4, run on the code. Three files go through the deferred handler on a fresh
  conversation, once with an image in the latest block during the call for \<open>img2\<close> (the
  handler resolves \<open>img1\<close> as a success there) and once without (it resolves \<open>img1\<close>
  as a failure). In both runs the counter of \<open>img1\<close> is written in iteration 2 before
  the handler is called for \<open>img2\<close>, with the failure key: the write carries the status
  returned by the call for \<open>img1\<close> itself, not the outcome of \<open>img1\<close>. The outcome
  resolved for \<open>img1\<close> is written one iteration later, in iteration 3, to the counter of
  \<open>img2\<close> (success key in the first run, failure key in the second), and the write
  after the loop puts the outcome resolved for \<open>img2\<close> on \<open>img3\<close>. Each file is
  written once, in the order of the batch.
\<close>

theorem deferred_write_precedes_resolution:
  "fst (ChatGptHandler scripted [Block (ImageCount 1), Block (ImageCount 0)] ''/in/img2.png'')
     = Returned (Some (handler_result True True))
   \<and> fst (ChatGptHandler scripted [Block (ImageCount 0), Block (ImageCount 0)] ''/in/img2.png'')
     = Returned (Some (handler_result True False))
   \<and> take 5 (calls (run_batch default_options (ChatGptHandler scripted)
                    [Block NoBlocks, Block (ImageCount 1), Block (ImageCount 0)]
                    fresh_store three_units))
     = [GetAppData 1 ''/in/img1.png'', ProcessImage 1 ''/in/img1.png'',
        IncrementCounter (InLoop 2) ''/in/img1.png'' ''failedCount'',
        GetAppData 2 ''/in/img2.png'', ProcessImage 2 ''/in/img2.png'']
   \<and> take 5 (calls (run_batch default_options (ChatGptHandler scripted)
                    [Block NoBlocks, Block (ImageCount 0), Block (ImageCount 0)]
                    fresh_store three_units))
     = [GetAppData 1 ''/in/img1.png'', ProcessImage 1 ''/in/img1.png'',
        IncrementCounter (InLoop 2) ''/in/img1.png'' ''failedCount'',
        GetAppData 2 ''/in/img2.png'', ProcessImage 2 ''/in/img2.png'']
   \<and> drop 5 (calls (run_batch default_options (ChatGptHandler scripted)
                    [Block NoBlocks, Block (ImageCount 1), Block (ImageCount 0)]
                    fresh_store three_units))
     = [IncrementCounter (InLoop 3) ''/in/img2.png'' ''successCount'',
        GetAppData 3 ''/in/img3.png'', ProcessImage 3 ''/in/img3.png'',
        IncrementCounter FinalKnown ''/in/img3.png'' ''failedCount'']
   \<and> drop 5 (calls (run_batch default_options (ChatGptHandler scripted)
                    [Block NoBlocks, Block (ImageCount 0), Block (ImageCount 0)]
                    fresh_store three_units))
     = [IncrementCounter (InLoop 3) ''/in/img2.png'' ''failedCount'',
        GetAppData 3 ''/in/img3.png'', ProcessImage 3 ''/in/img3.png'',
        IncrementCounter FinalKnown ''/in/img3.png'' ''failedCount'']
   \<and> persist_paths (calls (run_batch default_options (ChatGptHandler scripted)
                    [Block NoBlocks, Block (ImageCount 1), Block (ImageCount 0)]
                    fresh_store three_units))
     = three_units
   \<and> stored_counts default_options
        (exif (run_batch default_options (ChatGptHandler scripted)
                 [Block NoBlocks, Block (ImageCount 1), Block (ImageCount 0)]
                 fresh_store three_units)) ''/in/img1.png''
     = (0, 1)"
  by code_simp

text \<open>Whatever the immediate handler returns, the pipeline reads a failed submission.\<close>

lemma gemini_always_read_as_failure:
  "read_attempt (fst (GeminiHandler d p f)) = (JBool False, True)"
  by (simp add: GeminiHandler_def gemini_processImage_def gemini_result_def
      split: prod.splits option.splits outcome.splits)

text \<open>
  Claim C2, run on the code. Two files go through the immediate handler and the surface
  renders an image for each, so the handler returns \<^verbatim>\<open>{success: true}\<close> twice. The
  result has no \<^verbatim>\<open>submitted\<close> property, so the pipeline takes the branch for an
  unexpected result: it counts a submit error and sets the status to false. Both files
  get the failure key (the first in iteration 2, the second after the loop through the
  known-status branch) and the summary reports two failures and two submit errors.
\<close>

theorem immediate_success_is_stored_as_failure:
  "gemini_processImage scripted [Answer True, Answer True] ''/in/img1.png''
     = (gemini_result True, [Answer True])
   \<and> gemini_processImage scripted [Answer True] ''/in/img2.png'' = (gemini_result True, [])
   \<and> calls (run_batch default_options (GeminiHandler scripted) [Answer True, Answer True]
            fresh_store [''/in/img1.png'', ''/in/img2.png''])
     = [GetAppData 1 ''/in/img1.png'', ProcessImage 1 ''/in/img1.png'',
        IncrementCounter (InLoop 2) ''/in/img1.png'' ''failedCount'',
        GetAppData 2 ''/in/img2.png'', ProcessImage 2 ''/in/img2.png'',
        IncrementCounter FinalKnown ''/in/img2.png'' ''failedCount'']
   \<and> map (stored_counts default_options
            (exif (run_batch default_options (GeminiHandler scripted) [Answer True, Answer True]
                     fresh_store [''/in/img1.png'', ''/in/img2.png''])))
          [''/in/img1.png'', ''/in/img2.png'']
     = [(0, 1), (0, 1)]
   \<and> processImageBatch default_options (GeminiHandler scripted) [Answer True, Answer True]
        fresh_store [''/in/img1.png'', ''/in/img2.png'']
     = \<lparr>processed = 2, skipped = 0, success = 0, failed = 2, submitErrors = 2, exifErrors = 0\<rparr>
   \<and> read_attempt (Returned (Some (gemini_result True))) = (JBool False, True)"
  by code_simp


end
